theory Spec2Isabelle
  imports Main
begin

section \<open>Framework and bundler detection\<close>

text \<open>
  The development follows \<^verbatim>\<open>detect\<close> and the two static tables it scans,
  \<^verbatim>\<open>bundlers\<close> and \<^verbatim>\<open>FRONTEND_FRAMEWORKS\<close>. The source imports its version
  check, \<^verbatim>\<open>satisfies\<close>, from the package \<^verbatim>\<open>compare-versions\<close>: the first
  subsection gives the function that package exports, and \<^verbatim>\<open>detect\<close> and its loops
  take the version check as their first argument, so that what is proved of them for every
  version check holds of the imported one.
\<close>

subsection \<open>The version check of compare-versions\<close>

text \<open>
  \<^verbatim>\<open>satisfies\<close> is not code of the repository: the source only imports it. The
  compiled source loads the package with \<^verbatim>\<open>require\<close>, which resolves to the CommonJS
  build of the package, \<^verbatim>\<open>index.js\<close> of release 4.1.3. The definitions of this
  subsection follow that build, function by function: the regular expression
  \<^verbatim>\<open>semver\<close> and the validation with it, \<^verbatim>\<open>split\<close>, \<^verbatim>\<open>tryParse\<close>,
  \<^verbatim>\<open>compareStrings\<close>, \<^verbatim>\<open>compareSegments\<close>, \<^verbatim>\<open>compareVersions\<close>,
  \<^verbatim>\<open>compare\<close> and \<^verbatim>\<open>satisfies\<close>. In this build \<^verbatim>\<open>compareVersions\<close>
  validates both strings with the regular expression, which admits a leading range
  operator, and then compares the pieces that \<^verbatim>\<open>split\<close> cuts at the dots, where the
  operator is still in front of the first piece; \<^verbatim>\<open>satisfies\<close> takes the pieces of a
  caret or tilde range from the groups of the regular expression instead. Both exceptions
  of the package are values of \<open>error\<close>. Numbers are mathematical integers here; the
  package compares IEEE doubles, which agree with them below \<open>2 ^ 53\<close>.
\<close>

datatype error =
    InvalidSemver string    \<comment> \<open>\<^verbatim>\<open>Invalid argument not valid semver ('...' received)\<close>\<close>
  | InvalidOperator string  \<comment> \<open>\<^verbatim>\<open>Invalid operator, expected one of >|>=|=|<=|<\<close>\<close>

text \<open>A JavaScript value as the comparison sees it: a matched group, a number, or
  \<^verbatim>\<open>undefined\<close> for a group that did not take part in the match.\<close>

datatype jsval = Undefined | Str string | Num int

definition isDigit :: "char \<Rightarrow> bool" where
  "isDigit c = (c \<in> set ''0123456789'')"

definition isPrefixChar :: "char \<Rightarrow> bool" where
  \<comment> \<open>\<^verbatim>\<open>[v^~<>=]\<close> under the flag \<^verbatim>\<open>i\<close>\<close>
  "isPrefixChar c = (c \<in> set ''vV^~<>='')"

definition isWildcardChar :: "char \<Rightarrow> bool" where
  \<comment> \<open>\<^verbatim>\<open>[x*]\<close> under the flag \<^verbatim>\<open>i\<close>\<close>
  "isWildcardChar c = (c \<in> set ''xX*'')"

definition isIdentChar :: "char \<Rightarrow> bool" where
  \<comment> \<open>\<^verbatim>\<open>[\da-z\-]\<close> under the flag \<^verbatim>\<open>i\<close>\<close>
  "isIdentChar c =
     (isDigit c \<or> c \<in> set ''abcdefghijklmnopqrstuvwxyz'' \<or>
      c \<in> set ''ABCDEFGHIJKLMNOPQRSTUVWXYZ'' \<or> c = CHR ''-'')"

fun split_on :: "char \<Rightarrow> string \<Rightarrow> string list" where
  "split_on d [] = [[]]"
| "split_on d (c # cs) =
     (if c = d then [] # split_on d cs
      else (case split_on d cs of [] \<Rightarrow> [[c]] | w # ws \<Rightarrow> (c # w) # ws))"

definition valid_idents :: "string \<Rightarrow> bool" where
  \<comment> \<open>\<^verbatim>\<open>[\da-z\-]+(?:\.[\da-z\-]+)*\<close> matching the whole string\<close>
  "valid_idents s = list_all (\<lambda>w. w \<noteq> [] \<and> list_all isIdentChar w) (split_on (CHR ''.'') s)"

definition match_seg :: "string \<Rightarrow> (string \<times> string) option" where
  \<comment> \<open>\<^verbatim>\<open>([x*]|\d+)\<close> at the front: the group and the rest\<close>
  "match_seg s =
     (case s of
        [] \<Rightarrow> None
      | c # cs \<Rightarrow>
          if isWildcardChar c then Some ([c], cs)
          else if isDigit c then Some (takeWhile isDigit s, dropWhile isDigit s)
          else None)"

definition match_tail :: "string \<Rightarrow> (string option \<times> string option) option" where
  \<comment> \<open>after the third segment: \<^verbatim>\<open>(?:\.([x*]|\d+))?(?:-(pre))?(?:\+build)?$\<close>;
      the fourth segment and the pre-release group\<close>
  "match_tail r3 =
     (let (g4, r4) =
            (case r3 of
               [] \<Rightarrow> (None, r3)
             | c # r \<Rightarrow>
                 if c = CHR ''.'' then
                   (case match_seg r of Some (g, r') \<Rightarrow> (Some g, r') | None \<Rightarrow> (None, r3))
                 else (None, r3));
          (g5, r5) =
            (case r4 of
               [] \<Rightarrow> (None, r4)
             | c # r \<Rightarrow>
                 if c = CHR ''-'' then
                   (let p = takeWhile (\<lambda>c. c \<noteq> CHR ''+'') r;
                        q = dropWhile (\<lambda>c. c \<noteq> CHR ''+'') r
                    in if valid_idents p then (Some p, q) else (None, r4))
                 else (None, r4))
      in case r5 of
           [] \<Rightarrow> Some (g4, g5)
         | c # r \<Rightarrow> if c = CHR ''+'' \<and> valid_idents r then Some (g4, g5) else None)"

definition group :: "string option \<Rightarrow> jsval" where
  "group g = (case g of None \<Rightarrow> Undefined | Some w \<Rightarrow> Str w)"

definition semver_match :: "string \<Rightarrow> jsval list option" where
  \<comment> \<open>the five groups of the expression \<^verbatim>\<open>semver\<close>, or no match\<close>
  "semver_match v =
     (let s = dropWhile isPrefixChar v;
          g1 = takeWhile isDigit s;
          r1 = dropWhile isDigit s
      in if g1 = [] then None
         else if r1 = [] then Some [Str g1, Undefined, Undefined, Undefined, Undefined]
         else if hd r1 \<noteq> CHR ''.'' then None
         else
           (case match_seg (tl r1) of
              None \<Rightarrow> None
            | Some (g2, r2) \<Rightarrow>
                if r2 = [] then Some [Str g1, Str g2, Undefined, Undefined, Undefined]
                else if hd r2 \<noteq> CHR ''.'' then None
                else
                  (case match_seg (tl r2) of
                     None \<Rightarrow> None
                   | Some (g3, r3) \<Rightarrow>
                       (case match_tail r3 of
                          None \<Rightarrow> None
                        | Some (g4, g5) \<Rightarrow>
                            Some [Str g1, Str g2, Str g3, group g4, group g5]))))"

definition validateAndParse :: "string \<Rightarrow> error + jsval list" where
  "validateAndParse v =
     (case semver_match v of None \<Rightarrow> Inl (InvalidSemver v) | Some m \<Rightarrow> Inr m)"

definition digit_val :: "char \<Rightarrow> int" where
  \<comment> \<open>the value of a decimal digit, from its character code\<close>
  "digit_val c = int (of_char c) - 48"

definition digit_char :: "nat \<Rightarrow> char" where
  "digit_char n = ''0123456789'' ! (n mod 10)"

function string_of_nat :: "nat \<Rightarrow> string" where
  "string_of_nat n =
     (if n < 10 then [digit_char n] else string_of_nat (n div 10) @ [digit_char n])"
  by pat_completeness auto
termination
  by (relation "measure id") auto

definition parseInt :: "string \<Rightarrow> int option" where
  \<comment> \<open>\<^verbatim>\<open>parseInt(s, 10)\<close>: an optional sign, then the longest run of digits; \<open>None\<close> is
      \<^verbatim>\<open>NaN\<close>. (Leading white space, which \<^verbatim>\<open>parseInt\<close> skips, is in no group.)\<close>
  "parseInt s =
     (let (neg, t) =
            (case s of
               [] \<Rightarrow> (False, s)
             | c # cs \<Rightarrow>
                 if c = CHR ''-'' then (True, cs) else if c = CHR ''+'' then (False, cs)
                 else (False, s));
          ds = takeWhile isDigit t;
          n = foldl (\<lambda>a c. 10 * a + digit_val c) 0 ds
      in if ds = [] then None else Some (if neg then - n else n))"

fun toString :: "jsval \<Rightarrow> string" where
  "toString Undefined = ''undefined''"
| "toString (Str s) = s"
| "toString (Num n) = (if n < 0 then CHR ''-'' # string_of_nat (nat (- n)) else string_of_nat (nat n))"

definition tryParse :: "jsval \<Rightarrow> jsval" where
  "tryParse v = (case parseInt (toString v) of None \<Rightarrow> v | Some n \<Rightarrow> Num n)"

fun str_less :: "string \<Rightarrow> string \<Rightarrow> bool" where
  \<comment> \<open>\<^verbatim>\<open><\<close> on strings: code units left to right, a proper prefix first\<close>
  "str_less [] [] = False"
| "str_less [] (d # ds) = True"
| "str_less (c # cs) [] = False"
| "str_less (c # cs) (d # ds) =
     ((of_char c :: nat) < of_char d \<or> (c = d \<and> str_less cs ds))"

fun js_less :: "jsval \<Rightarrow> jsval \<Rightarrow> bool" where
  \<comment> \<open>\<^verbatim>\<open>a < b\<close> after \<^verbatim>\<open>forceType\<close>: both numbers, or both strings, or both
      \<^verbatim>\<open>undefined\<close>\<close>
  "js_less (Num a) (Num b) = (a < b)"
| "js_less (Str a) (Str b) = str_less a b"
| "js_less a b = False"

fun typeof :: "jsval \<Rightarrow> string" where
  "typeof Undefined = ''undefined''"
| "typeof (Str s) = ''string''"
| "typeof (Num n) = ''number''"

definition forceType :: "jsval \<Rightarrow> jsval \<Rightarrow> jsval \<times> jsval" where
  "forceType a b =
     (if typeof a \<noteq> typeof b then (Str (toString a), Str (toString b)) else (a, b))"

definition compareStrings :: "jsval \<Rightarrow> jsval \<Rightarrow> int" where
  "compareStrings a b =
     (let (ap, bp) = forceType (tryParse a) (tryParse b)
      in if js_less bp ap then 1 else if js_less ap bp then - 1 else 0)"

definition orZero :: "jsval \<Rightarrow> jsval" where
  \<comment> \<open>\<^verbatim>\<open>a[i] || 0\<close>\<close>
  "orZero a = (if a = Undefined \<or> a = Str [] \<or> a = Num 0 then Num 0 else a)"

fun compareSegments :: "jsval list \<Rightarrow> jsval list \<Rightarrow> int" where
  "compareSegments [] [] = 0"
| "compareSegments (a # as) [] =
     (let r = compareStrings (orZero a) (Num 0) in if r \<noteq> 0 then r else compareSegments as [])"
| "compareSegments [] (b # bs) =
     (let r = compareStrings (Num 0) (orZero b) in if r \<noteq> 0 then r else compareSegments [] bs)"
| "compareSegments (a # as) (b # bs) =
     (let r = compareStrings (orZero a) (orZero b) in if r \<noteq> 0 then r else compareSegments as bs)"

definition indexOrEnd :: "string \<Rightarrow> char \<Rightarrow> nat" where
  \<comment> \<open>the index of the first \<open>q\<close>, or the length\<close>
  "indexOrEnd str q = length (takeWhile (\<lambda>c. c \<noteq> q) str)"

definition split_version :: "string \<Rightarrow> string list" where
  \<comment> \<open>\<^verbatim>\<open>split\<close>: one leading \<^verbatim>\<open>v\<close> and the build metadata go, the part before the
      first hyphen is cut at the dots, and the part after it is appended\<close>
  "split_version v =
     (let c0 = (case v of [] \<Rightarrow> v | h # t \<Rightarrow> if h = CHR ''v'' then t else v);
          c = takeWhile (\<lambda>x. x \<noteq> CHR ''+'') c0;
          patchIndex = indexOrEnd c (CHR ''-'')
      in split_on (CHR ''.'') (take patchIndex c) @ [drop (Suc patchIndex) c])"

definition segment_number :: "string list \<Rightarrow> nat \<Rightarrow> int option" where
  \<comment> \<open>\<^verbatim>\<open>parseInt(s[i] || 0, 10)\<close>; \<open>None\<close> is \<^verbatim>\<open>NaN\<close>\<close>
  "segment_number s i = (if i < length s \<and> s ! i \<noteq> [] then parseInt (s ! i) else Some 0)"

definition num_gt :: "int option \<Rightarrow> int option \<Rightarrow> bool" where
  \<comment> \<open>\<^verbatim>\<open>n1 > n2\<close> on numbers: false when either is \<^verbatim>\<open>NaN\<close>\<close>
  "num_gt a b =
     (case a of None \<Rightarrow> False | Some x \<Rightarrow> (case b of None \<Rightarrow> False | Some y \<Rightarrow> y < x))"

fun compareNumbers :: "string list \<Rightarrow> string list \<Rightarrow> nat list \<Rightarrow> int option" where
  \<comment> \<open>the first loop of \<^verbatim>\<open>compareVersions\<close> over the indices given; \<open>None\<close> when it
      ends without a return\<close>
  "compareNumbers s1 s2 [] = None"
| "compareNumbers s1 s2 (i # rest) =
     (let n1 = segment_number s1 i; n2 = segment_number s2 i
      in if num_gt n1 n2 then Some 1
         else if num_gt n2 n1 then Some (- 1)
         else compareNumbers s1 s2 rest)"

fun comparePre :: "jsval list \<Rightarrow> jsval list \<Rightarrow> int" where
  \<comment> \<open>the second loop, over the parsed parts of the two pre-release tags\<close>
  "comparePre [] [] = 0"
| "comparePre [] (b # bs) = - 1"
| "comparePre (a # as) [] = 1"
| "comparePre (a # as) (b # bs) =
     (if typeof b = ''string'' \<and> typeof a = ''number'' then - 1
      else if typeof a = ''string'' \<and> typeof b = ''number'' then 1
      else if js_less b a then 1
      else if js_less a b then - 1
      else comparePre as bs)"

definition compareVersions :: "string \<Rightarrow> string \<Rightarrow> error + int" where
  "compareVersions v1 v2 =
     (case validateAndParse v1 of
        Inl e \<Rightarrow> Inl e
      | Inr m1 \<Rightarrow>
          (case validateAndParse v2 of
             Inl e \<Rightarrow> Inl e
           | Inr m2 \<Rightarrow>
               (let s1 = split_version v1;
                    s2 = split_version v2;
                    sp1 = last s1;
                    sp2 = last s2
                in case compareNumbers s1 s2 [0 ..< max (length s1 - 1) (length s2 - 1)] of
                     Some r \<Rightarrow> Inr r
                   | None \<Rightarrow>
                       if sp1 \<noteq> [] \<and> sp2 \<noteq> [] then
                         Inr (comparePre (map (\<lambda>w. tryParse (Str w)) (split_on (CHR ''.'') sp1))
                                (map (\<lambda>w. tryParse (Str w)) (split_on (CHR ''.'') sp2)))
                       else if sp1 \<noteq> [] \<or> sp2 \<noteq> [] then Inr (if sp1 \<noteq> [] then - 1 else 1)
                       else Inr 0)))"

definition operatorResMap :: "string \<Rightarrow> int list option" where
  "operatorResMap op =
     (if op = ''>'' then Some [1]
      else if op = ''>='' then Some [0, 1]
      else if op = ''='' then Some [0]
      else if op = ''<='' then Some [- 1, 0]
      else if op = ''<'' then Some [- 1]
      else None)"

definition compare :: "string \<Rightarrow> string \<Rightarrow> string \<Rightarrow> error + bool" where
  "compare v1 v2 operator =
     (case operatorResMap operator of
        None \<Rightarrow> Inl (InvalidOperator operator)
      | Some allowed \<Rightarrow>
          (case compareVersions v1 v2 of
             Inl e \<Rightarrow> Inl e
           | Inr res \<Rightarrow> Inr (res \<in> set allowed)))"

definition satisfies :: "string \<Rightarrow> string \<Rightarrow> error + bool" where
  "satisfies v r =
     (let m = takeWhile (\<lambda>c. c \<in> set ''<>=~^'') r;
          op = (if m = [] then ''='' else m)
      in if op \<noteq> ''^'' \<and> op \<noteq> ''~'' then compare v r op
         else case validateAndParse v of
           Inl e \<Rightarrow> Inl e
         | Inr vm \<Rightarrow>
             (case validateAndParse r of
                Inl e \<Rightarrow> Inl e
              | Inr rm \<Rightarrow>
                  if compareStrings (vm ! 0) (rm ! 0) \<noteq> 0 then Inr False
                  else if op = ''^'' then
                    Inr (compareSegments [vm ! 1, vm ! 2] [rm ! 1, rm ! 2] \<ge> 0)
                  else if compareStrings (vm ! 1) (rm ! 1) \<noteq> 0 then Inr False
                  else Inr (compareStrings (vm ! 2) (rm ! 2) \<ge> 0)))"

subsection \<open>Data of the detector\<close>

text \<open>
  A detector rule, a bundler entry, a framework entry, the manifest and the result, with
  the fields \<^verbatim>\<open>detect\<close> reads. A framework entry also carries its packages, its
  glob, its category and its configuration templates; detection reads none of them, and
  the type tag tells the entries apart. \<^verbatim>\<open>Bundler['type']\<close> and \<^verbatim>\<open>PkgJson\<close>
  are declared in a file the source imports: the two bundler tags are those of the table
  \<^verbatim>\<open>bundlers\<close>, and a manifest has two optional maps from package names to
  version strings.
\<close>

record Detector =
  version :: string
  dependency :: string

datatype BundlerType = vite | webpack

record Bundler =
  bundler_type :: BundlerType
  bundler_detectors :: "Detector list"

datatype Family = template | library

record FrontendFramework =
  fw_type :: string
  family :: Family
  name :: string
  supportedBundlers :: "BundlerType list"
  detectors :: "Detector list"

record PkgJson =
  dependencies :: "(string \<rightharpoonup> string) option"
  devDependencies :: "(string \<rightharpoonup> string) option"

record DetectFramework =
  framework :: "FrontendFramework option"
  bundler :: "BundlerType option"

subsection \<open>The static tables\<close>

definition vite_bundler :: Bundler where
  "vite_bundler =
     \<lparr>bundler_type = vite,
      bundler_detectors = [\<lparr>version = ''>=2.0.0'', dependency = ''vite''\<rparr>]\<rparr>"

definition webpack_bundler :: Bundler where
  "webpack_bundler =
     \<lparr>bundler_type = webpack,
      bundler_detectors = [\<lparr>version = ''>=4.0.0'', dependency = ''webpack''\<rparr>]\<rparr>"

definition bundlers :: "Bundler list" where
  "bundlers = [vite_bundler, webpack_bundler]"

definition cra :: FrontendFramework where
  "cra =
     \<lparr>fw_type = ''cra'', family = template, name = ''Create React App'',
      supportedBundlers = [webpack],
      detectors = [\<lparr>version = ''>=4.0.0'', dependency = ''react-scripts''\<rparr>]\<rparr>"

definition vueclivue2 :: FrontendFramework where
  "vueclivue2 =
     \<lparr>fw_type = ''vueclivue2'', family = template, name = ''Vue CLI (Vue 2)'',
      supportedBundlers = [webpack],
      detectors = [\<lparr>version = ''^4.0.0'', dependency = ''@vue/cli-service''\<rparr>,
                   \<lparr>version = ''^2.0.0'', dependency = ''vue''\<rparr>]\<rparr>"

definition vueclivue3 :: FrontendFramework where
  "vueclivue3 =
     \<lparr>fw_type = ''vueclivue3'', family = template, name = ''Vue CLI (Vue 3)'',
      supportedBundlers = [webpack],
      detectors = [\<lparr>version = ''^4.0.0'', dependency = ''@vue/cli-service''\<rparr>,
                   \<lparr>version = ''^3.0.0'', dependency = ''vue''\<rparr>]\<rparr>"

definition react :: FrontendFramework where
  "react =
     \<lparr>fw_type = ''react'', family = library, name = ''React.js'',
      supportedBundlers = [webpack, vite],
      detectors = [\<lparr>version = ''>=16.0.0'', dependency = ''react''\<rparr>,
                   \<lparr>version = ''>=16.0.0'', dependency = ''react-dom''\<rparr>]\<rparr>"

definition vue2 :: FrontendFramework where
  "vue2 =
     \<lparr>fw_type = ''vue2'', family = library, name = ''Vue.js (v2)'',
      supportedBundlers = [webpack, vite],
      detectors = [\<lparr>version = ''^2.0.0'', dependency = ''vue''\<rparr>]\<rparr>"

definition vue3 :: FrontendFramework where
  "vue3 =
     \<lparr>fw_type = ''vue3'', family = library, name = ''Vue.js (v3)'',
      supportedBundlers = [webpack, vite],
      detectors = [\<lparr>version = ''^3.0.0'', dependency = ''vue''\<rparr>]\<rparr>"

definition nextjs :: FrontendFramework where
  "nextjs =
     \<lparr>fw_type = ''nextjs'', family = template, name = ''Next.js'',
      supportedBundlers = [webpack],
      detectors = [\<lparr>version = ''>=11.0.0'', dependency = ''next''\<rparr>]\<rparr>"

definition nuxtjs :: FrontendFramework where
  "nuxtjs =
     \<lparr>fw_type = ''nuxtjs'', family = template, name = ''Nuxt.js (v2)'',
      supportedBundlers = [webpack],
      detectors = [\<lparr>version = ''^2.0.0'', dependency = ''nuxt''\<rparr>]\<rparr>"

definition FRONTEND_FRAMEWORKS :: "FrontendFramework list" where
  "FRONTEND_FRAMEWORKS = [cra, vueclivue2, vueclivue3, react, vue2, vue3, nextjs, nuxtjs]"

subsection \<open>detect\<close>

text \<open>
  \<^verbatim>\<open>pkg.dependencies?.[name] || pkg.devDependencies?.[name]\<close>: the regular
  partition answers unless it is missing, has no such key or holds the empty string.
  (The rules of the tables name no property that a JavaScript object inherits.)
\<close>

definition lookup :: "(string \<rightharpoonup> string) option \<Rightarrow> string \<Rightarrow> string option" where
  "lookup deps k = (case deps of None \<Rightarrow> None | Some m \<Rightarrow> m k)"

definition declared :: "PkgJson \<Rightarrow> string \<Rightarrow> string option" where
  "declared pkg k =
     (case lookup (dependencies pkg) k of
        None \<Rightarrow> lookup (devDependencies pkg) k
      | Some v \<Rightarrow> if v = [] then lookup (devDependencies pkg) k else Some v)"

text \<open>
  \<^verbatim>\<open>inPkgJson\<close>: \<^verbatim>\<open>(vers && satisfies(vers, detector.version)) ?? false\<close>. A
  missing or empty version string gives a falsy value without a call of the version
  check; otherwise the outcome is that of the version check, its exception included.
\<close>

definition inPkgJson ::
  "(string \<Rightarrow> string \<Rightarrow> error + bool) \<Rightarrow> PkgJson \<Rightarrow> Detector \<Rightarrow> error + bool" where
  "inPkgJson sat pkg detector =
     (case declared pkg (dependency detector) of
        None \<Rightarrow> Inr False
      | Some vers \<Rightarrow> if vers = [] then Inr False else sat vers (version detector))"

text \<open>\<^verbatim>\<open>Array.prototype.every\<close>: stops at the first falsy answer and at an exception.\<close>

fun every :: "('a \<Rightarrow> error + bool) \<Rightarrow> 'a list \<Rightarrow> error + bool" where
  "every f [] = Inr True"
| "every f (x # xs) =
     (case f x of Inl e \<Rightarrow> Inl e | Inr b \<Rightarrow> if b then every f xs else Inr False)"

text \<open>The first loop, over the templates; \<open>None\<close> when it ends without a return.\<close>

fun template_pass ::
  "(string \<Rightarrow> string \<Rightarrow> error + bool) \<Rightarrow> PkgJson \<Rightarrow> FrontendFramework list \<Rightarrow>
   error + DetectFramework option" where
  "template_pass sat pkg [] = Inr None"
| "template_pass sat pkg (fw # fws) =
     (case every (inPkgJson sat pkg) (detectors fw) of
        Inl e \<Rightarrow> Inl e
      | Inr hasAllDeps \<Rightarrow>
          if hasAllDeps \<and> length (supportedBundlers fw) = 1
          then Inr (Some \<lparr>framework = Some fw, bundler = None\<rparr>)
          else template_pass sat pkg fws)"

text \<open>The inner loop of the second pass, over the bundlers, for one library.\<close>

fun bundler_pass ::
  "(string \<Rightarrow> string \<Rightarrow> error + bool) \<Rightarrow> PkgJson \<Rightarrow> FrontendFramework \<Rightarrow> bool \<Rightarrow>
   Bundler list \<Rightarrow> error + DetectFramework option" where
  "bundler_pass sat pkg lib hasLibrary [] = Inr None"
| "bundler_pass sat pkg lib hasLibrary (b # bs) =
     (case every (inPkgJson sat pkg) (bundler_detectors b) of
        Inl e \<Rightarrow> Inl e
      | Inr hasBundler \<Rightarrow>
          if hasLibrary \<and> hasBundler
          then Inr (Some \<lparr>framework = Some lib, bundler = Some (bundler_type b)\<rparr>)
          else if hasLibrary
          then Inr (Some \<lparr>framework = Some lib, bundler = None\<rparr>)
          else bundler_pass sat pkg lib hasLibrary bs)"

text \<open>The second loop, over the libraries.\<close>

fun library_pass ::
  "(string \<Rightarrow> string \<Rightarrow> error + bool) \<Rightarrow> PkgJson \<Rightarrow> Bundler list \<Rightarrow>
   FrontendFramework list \<Rightarrow> error + DetectFramework option" where
  "library_pass sat pkg bs [] = Inr None"
| "library_pass sat pkg bs (lib # libs) =
     (case every (inPkgJson sat pkg) (detectors lib) of
        Inl e \<Rightarrow> Inl e
      | Inr hasLibrary \<Rightarrow>
          (case bundler_pass sat pkg lib hasLibrary bs of
             Inl e \<Rightarrow> Inl e
           | Inr (Some res) \<Rightarrow> Inr (Some res)
           | Inr None \<Rightarrow> library_pass sat pkg bs libs))"

text \<open>The body of \<^verbatim>\<open>detect\<close> over any two tables, and \<^verbatim>\<open>detect\<close> itself over
  the static ones.\<close>

definition detect_in ::
  "(string \<Rightarrow> string \<Rightarrow> error + bool) \<Rightarrow> FrontendFramework list \<Rightarrow> Bundler list \<Rightarrow>
   PkgJson \<Rightarrow> error + DetectFramework" where
  "detect_in sat fws bs pkg =
     (case template_pass sat pkg (filter (\<lambda>x. family x = template) fws) of
        Inl e \<Rightarrow> Inl e
      | Inr (Some res) \<Rightarrow> Inr res
      | Inr None \<Rightarrow>
          (case library_pass sat pkg bs (filter (\<lambda>x. family x = library) fws) of
             Inl e \<Rightarrow> Inl e
           | Inr (Some res) \<Rightarrow> Inr res
           | Inr None \<Rightarrow> Inr \<lparr>framework = None, bundler = None\<rparr>))"

definition detect ::
  "(string \<Rightarrow> string \<Rightarrow> error + bool) \<Rightarrow> PkgJson \<Rightarrow> error + DetectFramework" where
  "detect sat pkg = detect_in sat FRONTEND_FRAMEWORKS bundlers pkg"

subsection \<open>Auxiliary notions and example manifests\<close>

definition registry_detectors :: "Detector list" where
  \<comment> \<open>every rule of the two static tables\<close>
  "registry_detectors =
     concat (map detectors FRONTEND_FRAMEWORKS) @ concat (map bundler_detectors bundlers)"

definition returns :: "error + 'a \<Rightarrow> bool" where
  \<comment> \<open>the call came back with a value: it raised nothing\<close>
  "returns r = (case r of Inl e \<Rightarrow> False | Inr x \<Rightarrow> True)"

definition react_vite :: PkgJson where
  "react_vite =
     \<lparr>dependencies = Some [''react'' \<mapsto> ''>=16.2.0'', ''react-dom'' \<mapsto> ''>=16.2.0'',
                            ''vite'' \<mapsto> ''>=2.1.0''],
      devDependencies = None\<rparr>"

definition vue3_vite :: PkgJson where
  "vue3_vite =
     \<lparr>dependencies = Some [''vue'' \<mapsto> ''^3.2.0''],
      devDependencies = Some [''vite'' \<mapsto> ''^2.9.0'']\<rparr>"

definition vue3_webpack :: PkgJson where
  "vue3_webpack =
     \<lparr>dependencies = Some [''vue'' \<mapsto> ''^3.2.0'', ''webpack'' \<mapsto> ''^5.0.0''],
      devDependencies = None\<rparr>"

definition cra_next :: PkgJson where
  "cra_next =
     \<lparr>dependencies = Some [''react-scripts'' \<mapsto> ''^5.0.0'', ''next'' \<mapsto> ''12.1.0''],
      devDependencies = None\<rparr>"

definition next_react :: PkgJson where
  "next_react =
     \<lparr>dependencies = Some [''next'' \<mapsto> ''12.1.0'', ''react'' \<mapsto> ''17.0.2'',
                            ''react-dom'' \<mapsto> ''17.0.2''],
      devDependencies = Some [''webpack'' \<mapsto> ''^5.0.0'']\<rparr>"

definition nuxt_both :: FrontendFramework where
  \<comment> \<open>a template with two bundlers, the case the comment in the first loop speaks of;
      the static table has none\<close>
  "nuxt_both = nuxtjs\<lparr>supportedBundlers := [webpack, vite]\<rparr>"

definition nuxt_vue2_vite :: PkgJson where
  "nuxt_vue2_vite =
     \<lparr>dependencies = Some [''nuxt'' \<mapsto> ''^2.15.0'', ''vue'' \<mapsto> ''^2.6.14''],
      devDependencies = Some [''vite'' \<mapsto> ''^2.9.0'']\<rparr>"

definition lodash_only :: PkgJson where
  "lodash_only =
     \<lparr>dependencies = Some [''lodash'' \<mapsto> ''^4.17.21''], devDependencies = None\<rparr>"

definition vite_latest :: PkgJson where
  "vite_latest =
     \<lparr>dependencies = None, devDependencies = Some [''vite'' \<mapsto> ''latest'']\<rparr>"

definition react_scripts_latest :: PkgJson where
  "react_scripts_latest =
     \<lparr>dependencies = Some [''react-scripts'' \<mapsto> ''latest''], devDependencies = None\<rparr>"

definition react16 :: PkgJson where
  "react16 =
     \<lparr>dependencies = Some [''react'' \<mapsto> ''^16.0.0'', ''react-dom'' \<mapsto> ''^16.0.0''],
      devDependencies = None\<rparr>"

definition react15 :: PkgJson where
  "react15 =
     \<lparr>dependencies = Some [''react'' \<mapsto> ''^15.9.0'', ''react-dom'' \<mapsto> ''^15.9.0''],
      devDependencies = None\<rparr>"

definition vue1_webpack_latest :: PkgJson where
  "vue1_webpack_latest =
     \<lparr>dependencies = Some [''vue'' \<mapsto> ''1.0.28''],
      devDependencies = Some [''webpack'' \<mapsto> ''latest'']\<rparr>"

definition vue1_vite :: PkgJson where
  "vue1_vite =
     \<lparr>dependencies = Some [''vue'' \<mapsto> ''1.0.28''],
      devDependencies = Some [''vite'' \<mapsto> ''2.9.0'']\<rparr>"

definition cli_service_latest :: PkgJson where
  "cli_service_latest =
     \<lparr>dependencies = Some [''vue'' \<mapsto> ''^2.6.14''],
      devDependencies = Some [''@vue/cli-service'' \<mapsto> ''latest'']\<rparr>"

definition vue3_vite_latest :: PkgJson where
  "vue3_vite_latest =
     \<lparr>dependencies = Some [''vue'' \<mapsto> ''^3.2.0'', ''vite'' \<mapsto> ''latest''],
      devDependencies = None\<rparr>"

definition vue_empty :: PkgJson where
  \<comment> \<open>the regular partition holds the empty string, the other one a version\<close>
  "vue_empty =
     \<lparr>dependencies = Some [''vue'' \<mapsto> []],
      devDependencies = Some [''vue'' \<mapsto> ''^3.2.0'']\<rparr>"

section \<open>Properties of the loops\<close>

lemma every_Inl:
  "every f xs = Inl e \<Longrightarrow> \<exists>x \<in> set xs. f x = Inl e"
  by (induction xs) (auto split: sum.splits if_splits)

lemma template_pass_append:
  "template_pass sat pkg pre = Inr None \<Longrightarrow>
   template_pass sat pkg (pre @ rest) = template_pass sat pkg rest"
  by (induction pre) (auto split: sum.splits if_splits)

lemma template_pass_Some:
  "template_pass sat pkg fws = Inr (Some r) \<Longrightarrow>
   \<exists>fw \<in> set fws. r = \<lparr>framework = Some fw, bundler = None\<rparr> \<and>
      every (inPkgJson sat pkg) (detectors fw) = Inr True \<and>
      length (supportedBundlers fw) = 1"
  by (induction fws) (auto split: sum.splits if_splits)

lemma template_pass_Inl:
  "template_pass sat pkg fws = Inl e \<Longrightarrow>
   \<exists>fw \<in> set fws. every (inPkgJson sat pkg) (detectors fw) = Inl e"
  by (induction fws) (auto split: sum.splits if_splits)

lemma template_pass_skip:
  "every (inPkgJson sat pkg) (detectors t) = Inr b \<Longrightarrow>
   \<not> (b \<and> length (supportedBundlers t) = 1) \<Longrightarrow>
   template_pass sat pkg (xs @ t # ys) = template_pass sat pkg (xs @ ys)"
  by (induction xs) (auto split: sum.splits)

lemma template_pass_none:
  "\<forall>fw \<in> set fws. every (inPkgJson sat pkg) (detectors fw) = Inr False \<Longrightarrow>
   template_pass sat pkg fws = Inr None"
  by (induction fws) auto

lemma bundler_pass_True:
  "bundler_pass sat pkg lib True (b # bs) =
     (case every (inPkgJson sat pkg) (bundler_detectors b) of
        Inl e \<Rightarrow> Inl e
      | Inr hb \<Rightarrow>
          Inr (Some \<lparr>framework = Some lib,
                     bundler = (if hb then Some (bundler_type b) else None)\<rparr>))"
  by (simp split: sum.splits)

lemma bundler_pass_False: "bundler_pass sat pkg lib False bs \<noteq> Inr (Some r)"
  by (induction bs) (auto split: sum.splits)

lemma bundler_pass_False_none:
  "\<forall>b \<in> set bs. returns (every (inPkgJson sat pkg) (bundler_detectors b)) \<Longrightarrow>
   bundler_pass sat pkg lib False bs = Inr None"
  by (induction bs) (auto simp: returns_def split: sum.splits)

lemma bundler_pass_False_indep:
  "bundler_pass sat pkg lib False bs = bundler_pass sat pkg lib' False bs"
  by (induction bs) (auto split: sum.splits)

lemma bundler_pass_append:
  "bundler_pass sat pkg lib h pre = Inr None \<Longrightarrow>
   bundler_pass sat pkg lib h (pre @ rest) = bundler_pass sat pkg lib h rest"
  by (induction pre) (auto split: sum.splits if_splits)

lemma bundler_pass_Inl:
  "bundler_pass sat pkg lib h bs = Inl e \<Longrightarrow>
   \<exists>b \<in> set bs. every (inPkgJson sat pkg) (bundler_detectors b) = Inl e"
  by (induction bs) (auto split: sum.splits if_splits)

lemma bundler_pass_Some:
  "bundler_pass sat pkg lib h bs = Inr (Some r) \<Longrightarrow>
   h \<and> framework r = Some lib \<and>
   (bundler r = None \<or> (\<exists>b rest. bs = b # rest \<and> bundler r = Some (bundler_type b)))"
  by (cases h; cases bs) (auto simp: bundler_pass_False split: sum.splits if_splits)

lemma library_pass_append:
  "library_pass sat pkg bs pre = Inr None \<Longrightarrow>
   library_pass sat pkg bs (pre @ rest) = library_pass sat pkg bs rest"
  by (induction pre) (auto split: sum.splits option.splits)

lemma library_pass_Some:
  "library_pass sat pkg bs libs = Inr (Some r) \<Longrightarrow>
   \<exists>lib \<in> set libs. framework r = Some lib \<and>
      every (inPkgJson sat pkg) (detectors lib) = Inr True \<and>
      (bundler r = None \<or> (\<exists>b rest. bs = b # rest \<and> bundler r = Some (bundler_type b)))"
proof (induction libs)
  case Nil
  then show ?case by simp
next
  case (Cons lib libs)
  show ?case
  proof (cases "every (inPkgJson sat pkg) (detectors lib)")
    case (Inl e)
    with Cons.prems show ?thesis by simp
  next
    case (Inr h)
    show ?thesis
    proof (cases "bundler_pass sat pkg lib h bs")
      case (Inl e)
      with Inr Cons.prems show ?thesis by simp
    next
      case bp: (Inr res)
      show ?thesis
      proof (cases res)
        case None
        with Inr bp Cons.prems have "library_pass sat pkg bs libs = Inr (Some r)" by simp
        from Cons.IH [OF this] show ?thesis by auto
      next
        case (Some r')
        with Inr bp Cons.prems have "r' = r" by simp
        with bp Some have "bundler_pass sat pkg lib h bs = Inr (Some r)" by simp
        from bundler_pass_Some [OF this] Inr show ?thesis by auto
      qed
    qed
  qed
qed

lemma library_pass_Inl:
  "library_pass sat pkg bs libs = Inl e \<Longrightarrow>
   (\<exists>lib \<in> set libs. every (inPkgJson sat pkg) (detectors lib) = Inl e) \<or>
   (\<exists>b \<in> set bs. every (inPkgJson sat pkg) (bundler_detectors b) = Inl e)"
proof (induction libs)
  case Nil
  then show ?case by simp
next
  case (Cons lib libs)
  show ?case
  proof (cases "every (inPkgJson sat pkg) (detectors lib)")
    case (Inl e')
    with Cons.prems show ?thesis by simp
  next
    case (Inr h)
    show ?thesis
    proof (cases "bundler_pass sat pkg lib h bs")
      case (Inl e')
      with Inr Cons.prems have "bundler_pass sat pkg lib h bs = Inl e" by simp
      from bundler_pass_Inl [OF this] show ?thesis by simp
    next
      case bp: (Inr res)
      with Inr Cons.prems have "library_pass sat pkg bs libs = Inl e"
        by (cases res) simp_all
      from Cons.IH [OF this] show ?thesis by auto
    qed
  qed
qed

lemma library_pass_none:
  "\<forall>lib \<in> set libs. every (inPkgJson sat pkg) (detectors lib) = Inr False \<Longrightarrow>
   \<forall>b \<in> set bs. returns (every (inPkgJson sat pkg) (bundler_detectors b)) \<Longrightarrow>
   library_pass sat pkg bs libs = Inr None"
  by (induction libs) (auto simp: bundler_pass_False_none)

lemma library_pass_all_False:
  "libs \<noteq> [] \<Longrightarrow>
   \<forall>lib \<in> set libs. every (inPkgJson sat pkg) (detectors lib) = Inr False \<Longrightarrow>
   library_pass sat pkg bs libs =
     (case bundler_pass sat pkg (hd libs) False bs of
        Inl e \<Rightarrow> Inl e
      | Inr res \<Rightarrow> Inr None)"
proof (induction libs)
  case Nil
  then show ?case by simp
next
  case (Cons lib libs)
  have here: "every (inPkgJson sat pkg) (detectors lib) = Inr False"
    using Cons.prems(2) by simp
  show ?case
  proof (cases "bundler_pass sat pkg lib False bs")
    case (Inl e)
    with here show ?thesis by simp
  next
    case (Inr res)
    with bundler_pass_False [of sat pkg lib bs] have none: "res = None"
      by (cases res) auto
    show ?thesis
    proof (cases libs)
      case Nil
      with here Inr none show ?thesis by simp
    next
      case (Cons l ls)
      then have "libs \<noteq> []" by simp
      moreover have "\<forall>x \<in> set libs. every (inPkgJson sat pkg) (detectors x) = Inr False"
        using Cons.prems(2) by simp
      ultimately have "library_pass sat pkg bs libs =
          (case bundler_pass sat pkg (hd libs) False bs of
             Inl e \<Rightarrow> Inl e
           | Inr res \<Rightarrow> Inr None)"
        by (rule Cons.IH)
      moreover have "bundler_pass sat pkg (hd libs) False bs = bundler_pass sat pkg lib False bs"
        by (rule bundler_pass_False_indep)
      ultimately show ?thesis using here Inr none by simp
    qed
  qed
qed

lemma bundler_pass_False_static:
  "bundler_pass sat pkg lib False bundlers =
     (case every (inPkgJson sat pkg) (bundler_detectors vite_bundler) of
        Inl e \<Rightarrow> Inl e
      | Inr hv \<Rightarrow>
          (case every (inPkgJson sat pkg) (bundler_detectors webpack_bundler) of
             Inl e \<Rightarrow> Inl e
           | Inr hw \<Rightarrow> Inr None))"
  by (simp add: bundlers_def split: sum.splits)

lemma library_pass_hit:
  "every (inPkgJson sat pkg) (detectors lib) = Inr True \<Longrightarrow>
   library_pass sat pkg (b # bs) (lib # libs) =
     (case every (inPkgJson sat pkg) (bundler_detectors b) of
        Inl e \<Rightarrow> Inl e
      | Inr hb \<Rightarrow>
          Inr (Some \<lparr>framework = Some lib,
                     bundler = (if hb then Some (bundler_type b) else None)\<rparr>))"
  by (simp split: sum.splits)

lemma every_raises:
  "list_all (\<lambda>y. f y = Inr True) xs \<Longrightarrow> f x = Inl e \<Longrightarrow> every f (xs @ x # ys) = Inl e"
  by (induction xs) auto

lemma inPkgJson_Inl:
  "inPkgJson sat pkg d = Inl e \<Longrightarrow>
   \<exists>v. declared pkg (dependency d) = Some v \<and> v \<noteq> [] \<and> sat v (version d) = Inl e"
  by (auto simp: inPkgJson_def split: option.splits if_splits)

section \<open>Properties of detect\<close>

lemma templates_static:
  "filter (\<lambda>x. family x = template) FRONTEND_FRAMEWORKS =
     [cra, vueclivue2, vueclivue3, nextjs, nuxtjs]"
  by code_simp

lemma libraries_static:
  "filter (\<lambda>x. family x = library) FRONTEND_FRAMEWORKS = [react, vue2, vue3]"
  by code_simp

lemma distinct_static: "distinct FRONTEND_FRAMEWORKS"
  by code_simp

lemma templates_single:
  "t \<in> set (filter (\<lambda>x. family x = template) FRONTEND_FRAMEWORKS) \<Longrightarrow>
   length (supportedBundlers t) = 1"
  unfolding templates_static
  by (auto simp: cra_def vueclivue2_def vueclivue3_def nextjs_def nuxtjs_def)

lemma detect_in_template_hit:
  assumes tmpl: "filter (\<lambda>x. family x = template) fws = pre @ t # post"
    and reach: "template_pass sat pkg pre = Inr None"
    and sel: "every (inPkgJson sat pkg) (detectors t) = Inr True"
    and one: "length (supportedBundlers t) = 1"
  shows "detect_in sat fws bs pkg = Inr \<lparr>framework = Some t, bundler = None\<rparr>"
  using template_pass_append [OF reach, of "t # post"] tmpl sel one
  by (simp add: detect_in_def)

lemma detect_in_result:
  assumes "detect_in sat fws bs pkg = Inr r"
  shows "(\<exists>fw \<in> set fws. family fw = template \<and> r = \<lparr>framework = Some fw, bundler = None\<rparr> \<and>
            every (inPkgJson sat pkg) (detectors fw) = Inr True \<and>
            length (supportedBundlers fw) = 1) \<or>
         (\<exists>lib \<in> set fws. family lib = library \<and> framework r = Some lib \<and>
            every (inPkgJson sat pkg) (detectors lib) = Inr True \<and>
            (bundler r = None \<or> (\<exists>b rest. bs = b # rest \<and> bundler r = Some (bundler_type b)))) \<or>
         r = \<lparr>framework = None, bundler = None\<rparr>"
proof (cases "template_pass sat pkg (filter (\<lambda>x. family x = template) fws)")
  case (Inl e)
  with assms show ?thesis by (simp add: detect_in_def)
next
  case tp: (Inr res)
  show ?thesis
  proof (cases res)
    case (Some r')
    with tp assms have "r' = r" by (simp add: detect_in_def)
    with tp Some
    have "template_pass sat pkg (filter (\<lambda>x. family x = template) fws) = Inr (Some r)"
      by simp
    from template_pass_Some [OF this] show ?thesis by auto
  next
    case None
    show ?thesis
    proof (cases "library_pass sat pkg bs (filter (\<lambda>x. family x = library) fws)")
      case (Inl e)
      with tp None assms show ?thesis by (simp add: detect_in_def)
    next
      case lp: (Inr res')
      show ?thesis
      proof (cases res')
        case no: None
        with tp None lp assms show ?thesis by (simp add: detect_in_def)
      next
        case (Some r')
        with tp None lp assms have "r' = r" by (simp add: detect_in_def)
        with lp Some
        have "library_pass sat pkg bs (filter (\<lambda>x. family x = library) fws) = Inr (Some r)"
          by simp
        from library_pass_Some [OF this] show ?thesis by auto
      qed
    qed
  qed
qed

lemma detect_in_Inl:
  assumes "detect_in sat fws bs pkg = Inl e"
  shows "(\<exists>fw \<in> set fws. every (inPkgJson sat pkg) (detectors fw) = Inl e) \<or>
         (\<exists>b \<in> set bs. every (inPkgJson sat pkg) (bundler_detectors b) = Inl e)"
proof (cases "template_pass sat pkg (filter (\<lambda>x. family x = template) fws)")
  case (Inl e')
  with assms have "template_pass sat pkg (filter (\<lambda>x. family x = template) fws) = Inl e"
    by (simp add: detect_in_def)
  from template_pass_Inl [OF this] show ?thesis by auto
next
  case tp: (Inr res)
  show ?thesis
  proof (cases res)
    case (Some r')
    with tp assms show ?thesis by (simp add: detect_in_def)
  next
    case None
    with tp assms
    have "library_pass sat pkg bs (filter (\<lambda>x. family x = library) fws) = Inl e"
      by (simp add: detect_in_def split: sum.splits option.splits)
    from library_pass_Inl [OF this] show ?thesis by auto
  qed
qed

lemma detect_in_template_iff:
  assumes tmpl: "filter (\<lambda>x. family x = template) fws = pre @ t # post"
    and reach: "template_pass sat pkg pre = Inr None"
  shows "(detect_in sat fws bs pkg = Inr \<lparr>framework = Some t, bundler = None\<rparr>) =
         (every (inPkgJson sat pkg) (detectors t) = Inr True \<and> length (supportedBundlers t) = 1)"
proof
  assume "every (inPkgJson sat pkg) (detectors t) = Inr True \<and> length (supportedBundlers t) = 1"
  then show "detect_in sat fws bs pkg = Inr \<lparr>framework = Some t, bundler = None\<rparr>"
    using detect_in_template_hit [OF tmpl reach] by simp
next
  assume ret: "detect_in sat fws bs pkg = Inr \<lparr>framework = Some t, bundler = None\<rparr>"
  have "t \<in> set (filter (\<lambda>x. family x = template) fws)" using tmpl by simp
  then have "family t = template" by simp
  with detect_in_result [OF ret]
  show "every (inPkgJson sat pkg) (detectors t) = Inr True \<and> length (supportedBundlers t) = 1"
    by auto
qed

lemma detect_in_skip:
  assumes fam: "family t = template"
    and sel: "every (inPkgJson sat pkg) (detectors t) = Inr b"
    and no: "\<not> (b \<and> length (supportedBundlers t) = 1)"
  shows "detect_in sat (pre @ t # post) bs pkg = detect_in sat (pre @ post) bs pkg"
proof -
  have T: "filter (\<lambda>x. family x = template) (pre @ t # post) =
           filter (\<lambda>x. family x = template) pre @ t # filter (\<lambda>x. family x = template) post"
    using fam by simp
  have T': "filter (\<lambda>x. family x = template) (pre @ post) =
            filter (\<lambda>x. family x = template) pre @ filter (\<lambda>x. family x = template) post"
    by simp
  have L: "filter (\<lambda>x. family x = library) (pre @ t # post) =
           filter (\<lambda>x. family x = library) (pre @ post)"
    using fam by simp
  show ?thesis
    unfolding detect_in_def T T' L template_pass_skip [OF sel no] by (rule refl)
qed

lemma detect_template_raises:
  assumes tmpl: "filter (\<lambda>x. family x = template) fws = pre @ t # post"
    and reach: "template_pass sat pkg pre = Inr None"
    and raised: "every (inPkgJson sat pkg) (detectors t) = Inl e"
  shows "detect_in sat fws bs pkg = Inl e"
  using template_pass_append [OF reach, of "t # post"] tmpl raised
  by (simp add: detect_in_def)

lemma detect_library_raises:
  assumes through: "template_pass sat pkg (filter (\<lambda>x. family x = template) fws) = Inr None"
    and libs: "filter (\<lambda>x. family x = library) fws = pre @ l # post"
    and reach: "library_pass sat pkg bs pre = Inr None"
    and raised: "every (inPkgJson sat pkg) (detectors l) = Inl e"
  shows "detect_in sat fws bs pkg = Inl e"
  using library_pass_append [OF reach, of "l # post"] through libs raised
  by (simp add: detect_in_def)

lemma detect_bundler_raises:
  assumes through: "template_pass sat pkg (filter (\<lambda>x. family x = template) fws) = Inr None"
    and libs: "filter (\<lambda>x. family x = library) fws = pre @ l # post"
    and reach: "library_pass sat pkg bs pre = Inr None"
    and lib: "every (inPkgJson sat pkg) (detectors l) = Inr h"
    and bund: "bs = bpre @ b # bpost"
    and breach: "bundler_pass sat pkg l h bpre = Inr None"
    and raised: "every (inPkgJson sat pkg) (bundler_detectors b) = Inl e"
  shows "detect_in sat fws bs pkg = Inl e"
proof -
  have "bundler_pass sat pkg l h bs = bundler_pass sat pkg l h (b # bpost)"
    unfolding bund by (rule bundler_pass_append [OF breach])
  then have "bundler_pass sat pkg l h bs = Inl e" using raised by simp
  then have "library_pass sat pkg bs (l # post) = Inl e" using lib by simp
  then have "library_pass sat pkg bs (pre @ l # post) = Inl e"
    using library_pass_append [OF reach, of "l # post"] by simp
  then show ?thesis using through libs by (simp add: detect_in_def)
qed

section \<open>The claims\<close>

text \<open>
  Claim C1. In the library pass, at a library whose rules are all satisfied: when the
  rules of the bundler under examination, the first of the bundler table, are all
  satisfied and the library supports it, \<^verbatim>\<open>detect\<close> returns the library with that
  bundler's type; when that first bundler fails its rule check, \<^verbatim>\<open>detect\<close> returns
  the library with no bundler, and no later bundler is tried. The library pass is reached
  when the template pass ends without a return, and the library is reached when the
  pass over the libraries before it ends without a return.
\<close>

theorem detect_library_pass:
  assumes reach: "template_pass sat pkg (filter (\<lambda>x. family x = template) FRONTEND_FRAMEWORKS) = Inr None"
    and libs: "filter (\<lambda>x. family x = library) FRONTEND_FRAMEWORKS = pre @ lib # post"
    and earlier: "library_pass sat pkg bundlers pre = Inr None"
    and hasLibrary: "every (inPkgJson sat pkg) (detectors lib) = Inr True"
    and first: "bundlers = b # rest"
  shows "(every (inPkgJson sat pkg) (bundler_detectors b) = Inr True \<and>
          bundler_type b \<in> set (supportedBundlers lib) \<longrightarrow>
            detect sat pkg = Inr \<lparr>framework = Some lib, bundler = Some (bundler_type b)\<rparr>) \<and>
         (every (inPkgJson sat pkg) (bundler_detectors b) = Inr False \<longrightarrow>
            detect sat pkg = Inr \<lparr>framework = Some lib, bundler = None\<rparr>)"
proof -
  have "library_pass sat pkg bundlers (pre @ lib # post) =
          library_pass sat pkg (b # rest) (lib # post)"
    using library_pass_append [OF earlier] first by simp
  then have eq: "detect sat pkg =
      (case library_pass sat pkg (b # rest) (lib # post) of
         Inl e \<Rightarrow> Inl e
       | Inr (Some res) \<Rightarrow> Inr res
       | Inr None \<Rightarrow> Inr \<lparr>framework = None, bundler = None\<rparr>)"
    using reach libs by (simp add: detect_def detect_in_def del: library_pass.simps)
  show ?thesis
    unfolding eq library_pass_hit [OF hasLibrary] by simp
qed

theorem detect_library_pass_witness:
  "detect satisfies vue3_vite = Inr \<lparr>framework = Some vue3, bundler = Some vite\<rparr> \<and>
   detect satisfies vue3_webpack = Inr \<lparr>framework = Some vue3, bundler = None\<rparr>"
proof -
  have libs: "filter (\<lambda>x. family x = library) FRONTEND_FRAMEWORKS = [react, vue2] @ vue3 # []"
    by code_simp
  have first: "bundlers = vite_bundler # [webpack_bundler]"
    by (simp add: bundlers_def)
  have t1: "template_pass satisfies vue3_vite
              (filter (\<lambda>x. family x = template) FRONTEND_FRAMEWORKS) = Inr None"
    by code_simp
  have e1: "library_pass satisfies vue3_vite bundlers [react, vue2] = Inr None"
    by code_simp
  have l1: "every (inPkgJson satisfies vue3_vite) (detectors vue3) = Inr True"
    by code_simp
  have b1: "every (inPkgJson satisfies vue3_vite) (bundler_detectors vite_bundler) = Inr True"
    by code_simp
  have s1: "bundler_type vite_bundler \<in> set (supportedBundlers vue3)"
    by code_simp
  have t2: "template_pass satisfies vue3_webpack
              (filter (\<lambda>x. family x = template) FRONTEND_FRAMEWORKS) = Inr None"
    by code_simp
  have e2: "library_pass satisfies vue3_webpack bundlers [react, vue2] = Inr None"
    by code_simp
  have l2: "every (inPkgJson satisfies vue3_webpack) (detectors vue3) = Inr True"
    by code_simp
  have b2: "every (inPkgJson satisfies vue3_webpack) (bundler_detectors vite_bundler) = Inr False"
    by code_simp
  have v: "bundler_type vite_bundler = vite"
    by (simp add: vite_bundler_def)
  from detect_library_pass [OF t1 libs e1 l1 first] b1 s1 v
  have A: "detect satisfies vue3_vite = Inr \<lparr>framework = Some vue3, bundler = Some vite\<rparr>"
    by simp
  from detect_library_pass [OF t2 libs e2 l2 first] b2
  have B: "detect satisfies vue3_webpack = Inr \<lparr>framework = Some vue3, bundler = None\<rparr>"
    by simp
  show ?thesis by (rule conjI [OF A B])
qed

text \<open>
  Claim C2. In the template pass, over the templates in registry order, the candidate
  that the iteration has reached is returned, with no bundler, exactly when all its rules
  are satisfied and its list of supported bundlers has one element; and when the rules of
  a later template are all satisfied as well, the earlier one is returned, not the later.
\<close>

theorem detect_template_pass:
  assumes tmpl: "filter (\<lambda>x. family x = template) FRONTEND_FRAMEWORKS = pre @ t # post"
    and reach: "template_pass sat pkg pre = Inr None"
  shows "((detect sat pkg = Inr \<lparr>framework = Some t, bundler = None\<rparr>) =
          (every (inPkgJson sat pkg) (detectors t) = Inr True \<and>
           length (supportedBundlers t) = 1)) \<and>
         (\<forall>u \<in> set post.
            every (inPkgJson sat pkg) (detectors t) = Inr True \<and>
            every (inPkgJson sat pkg) (detectors u) = Inr True \<longrightarrow>
              detect sat pkg = Inr \<lparr>framework = Some t, bundler = None\<rparr> \<and>
              detect sat pkg \<noteq> Inr \<lparr>framework = Some u, bundler = None\<rparr>)"
proof -
  have iff: "(detect sat pkg = Inr \<lparr>framework = Some t, bundler = None\<rparr>) =
          (every (inPkgJson sat pkg) (detectors t) = Inr True \<and>
           length (supportedBundlers t) = 1)"
    unfolding detect_def by (rule detect_in_template_iff [OF tmpl reach])
  have "distinct (filter (\<lambda>x. family x = template) FRONTEND_FRAMEWORKS)"
    using distinct_static by simp
  then have notin: "t \<notin> set post" using tmpl by simp
  have "t \<in> set (filter (\<lambda>x. family x = template) FRONTEND_FRAMEWORKS)" using tmpl by simp
  then have one: "length (supportedBundlers t) = 1" by (rule templates_single)
  show ?thesis
  proof (intro conjI ballI impI)
    show "(detect sat pkg = Inr \<lparr>framework = Some t, bundler = None\<rparr>) =
          (every (inPkgJson sat pkg) (detectors t) = Inr True \<and>
           length (supportedBundlers t) = 1)" by (rule iff)
  next
    fix u
    assume "u \<in> set post"
      and "every (inPkgJson sat pkg) (detectors t) = Inr True \<and>
           every (inPkgJson sat pkg) (detectors u) = Inr True"
    then show "detect sat pkg = Inr \<lparr>framework = Some t, bundler = None\<rparr>"
      using iff one by simp
  next
    fix u
    assume u: "u \<in> set post"
      and "every (inPkgJson sat pkg) (detectors t) = Inr True \<and>
           every (inPkgJson sat pkg) (detectors u) = Inr True"
    then have "detect sat pkg = Inr \<lparr>framework = Some t, bundler = None\<rparr>"
      using iff one by simp
    moreover have "u \<noteq> t" using u notin by auto
    ultimately show "detect sat pkg \<noteq> Inr \<lparr>framework = Some u, bundler = None\<rparr>"
      by simp
  qed
qed

theorem detect_template_pass_witness:
  "detect satisfies cra_next = Inr \<lparr>framework = Some cra, bundler = None\<rparr> \<and>
   detect satisfies cra_next \<noteq> Inr \<lparr>framework = Some nextjs, bundler = None\<rparr> \<and>
   detect satisfies next_react = Inr \<lparr>framework = Some nextjs, bundler = None\<rparr>"
proof -
  have t1: "filter (\<lambda>x. family x = template) FRONTEND_FRAMEWORKS =
              [] @ cra # [vueclivue2, vueclivue3, nextjs, nuxtjs]"
    by code_simp
  have r1: "template_pass satisfies cra_next [] = Inr None" by simp
  have c: "every (inPkgJson satisfies cra_next) (detectors cra) = Inr True" by code_simp
  have n: "every (inPkgJson satisfies cra_next) (detectors nextjs) = Inr True" by code_simp
  have m: "nextjs \<in> set [vueclivue2, vueclivue3, nextjs, nuxtjs]" by simp
  have t2: "filter (\<lambda>x. family x = template) FRONTEND_FRAMEWORKS =
              [cra, vueclivue2, vueclivue3] @ nextjs # [nuxtjs]"
    by code_simp
  have r2: "template_pass satisfies next_react [cra, vueclivue2, vueclivue3] = Inr None"
    by code_simp
  have n2: "every (inPkgJson satisfies next_react) (detectors nextjs) = Inr True" by code_simp
  have one: "length (supportedBundlers nextjs) = 1" by code_simp
  from detect_template_pass [OF t1 r1] c n m
  have A: "detect satisfies cra_next = Inr \<lparr>framework = Some cra, bundler = None\<rparr> \<and>
           detect satisfies cra_next \<noteq> Inr \<lparr>framework = Some nextjs, bundler = None\<rparr>"
    by blast
  from detect_template_pass [OF t2 r2] n2 one
  have B: "detect satisfies next_react = Inr \<lparr>framework = Some nextjs, bundler = None\<rparr>"
    by blast
  show ?thesis
    by (rule conjI [OF conjunct1 [OF A] conjI [OF conjunct2 [OF A] B]])
qed

text \<open>
  Claim C4. For the manifest with the regular dependencies react \<^verbatim>\<open>>=16.2.0\<close>,
  react-dom \<^verbatim>\<open>>=16.2.0\<close> and vite \<^verbatim>\<open>>=2.1.0\<close> and no development
  dependencies, \<^verbatim>\<open>detect\<close> returns the React library entry and the bundler vite.
\<close>

theorem detect_react_vite:
  "detect satisfies
     \<lparr>dependencies = Some [''react'' \<mapsto> ''>=16.2.0'', ''react-dom'' \<mapsto> ''>=16.2.0'',
                            ''vite'' \<mapsto> ''>=2.1.0''],
      devDependencies = None\<rparr> =
   Inr \<lparr>framework = Some react, bundler = Some vite\<rparr>"
  by code_simp

text \<open>
  Claim C3. A template whose list of supported bundlers has more than one element is
  not selected by the template pass even when the manifest satisfies all its rules: the
  pass goes on as if the entry were not in the registry, and when no other template is
  selected the result is that of the library pass. The static registry has no such
  template, so the statement is about \<^verbatim>\<open>detect\<close>'s body over any registry.
\<close>

theorem detect_skips_multi_bundler_template:
  assumes fam: "family t = template"
    and multi: "1 < length (supportedBundlers t)"
    and sel: "every (inPkgJson sat pkg) (detectors t) = Inr True"
  shows "template_pass sat pkg (t # rest) = template_pass sat pkg rest \<and>
         detect_in sat (pre @ t # post) bs pkg = detect_in sat (pre @ post) bs pkg \<and>
         detect_in sat (pre @ t # post) bs pkg \<noteq> Inr \<lparr>framework = Some t, bundler = b\<rparr> \<and>
         (template_pass sat pkg (filter (\<lambda>x. family x = template) (pre @ post)) = Inr None \<longrightarrow>
            detect_in sat (pre @ t # post) bs pkg =
              (case library_pass sat pkg bs (filter (\<lambda>x. family x = library) (pre @ t # post)) of
                 Inl e \<Rightarrow> Inl e
               | Inr (Some res) \<Rightarrow> Inr res
               | Inr None \<Rightarrow> Inr \<lparr>framework = None, bundler = None\<rparr>))"
proof -
  have no: "\<not> (True \<and> length (supportedBundlers t) = 1)" using multi by simp
  have skip: "detect_in sat (pre @ t # post) bs pkg = detect_in sat (pre @ post) bs pkg"
    by (rule detect_in_skip [OF fam sel no])
  have step: "template_pass sat pkg (t # rest) = template_pass sat pkg rest"
    using sel multi by simp
  have never: "detect_in sat (pre @ t # post) bs pkg \<noteq> Inr \<lparr>framework = Some t, bundler = b\<rparr>"
  proof
    assume "detect_in sat (pre @ t # post) bs pkg = Inr \<lparr>framework = Some t, bundler = b\<rparr>"
    from detect_in_result [OF this] fam multi show False by auto
  qed
  have lib: "filter (\<lambda>x. family x = library) (pre @ t # post) =
             filter (\<lambda>x. family x = library) (pre @ post)"
    using fam by simp
  have through:
    "template_pass sat pkg (filter (\<lambda>x. family x = template) (pre @ post)) = Inr None \<longrightarrow>
       detect_in sat (pre @ t # post) bs pkg =
         (case library_pass sat pkg bs (filter (\<lambda>x. family x = library) (pre @ t # post)) of
            Inl e \<Rightarrow> Inl e
          | Inr (Some res) \<Rightarrow> Inr res
          | Inr None \<Rightarrow> Inr \<lparr>framework = None, bundler = None\<rparr>)"
    unfolding skip lib by (simp add: detect_in_def)
  from step skip never through show ?thesis by blast
qed

theorem detect_skips_multi_bundler_template_witness:
  "detect_in satisfies [cra, nuxt_both, vue2] bundlers nuxt_vue2_vite =
     Inr \<lparr>framework = Some vue2, bundler = Some vite\<rparr> \<and>
   detect_in satisfies [cra, nuxt_both, vue2] bundlers nuxt_vue2_vite \<noteq>
     Inr \<lparr>framework = Some nuxt_both, bundler = None\<rparr>"
proof -
  have fam: "family nuxt_both = template" by code_simp
  have multi: "1 < length (supportedBundlers nuxt_both)" by code_simp
  have sel: "every (inPkgJson satisfies nuxt_vue2_vite) (detectors nuxt_both) = Inr True"
    by code_simp
  have rest: "detect_in satisfies ([cra] @ [vue2]) bundlers nuxt_vue2_vite =
                Inr \<lparr>framework = Some vue2, bundler = Some vite\<rparr>"
    by code_simp
  from detect_skips_multi_bundler_template [OF fam multi sel, of _ "[cra]" "[vue2]" bundlers None]
  have "detect_in satisfies ([cra] @ nuxt_both # [vue2]) bundlers nuxt_vue2_vite =
          detect_in satisfies ([cra] @ [vue2]) bundlers nuxt_vue2_vite \<and>
        detect_in satisfies ([cra] @ nuxt_both # [vue2]) bundlers nuxt_vue2_vite \<noteq>
          Inr \<lparr>framework = Some nuxt_both, bundler = None\<rparr>"
    by blast
  with rest show ?thesis by simp
qed

text \<open>
  Claim C5, as amended. When no framework's rules are all satisfied, \<^verbatim>\<open>detect\<close>
  returns no result other than the one with framework and bundler both absent. When, in
  addition, the rule check of every framework returns, the library pass still checks the
  rules of the bundlers, vite and then webpack, although no library matched: the first
  exception among these two checks is the outcome of \<^verbatim>\<open>detect\<close>, and when neither
  raises \<^verbatim>\<open>detect\<close> returns the result with both absent.
\<close>

theorem detect_no_match:
  assumes none: "\<forall>fw \<in> set FRONTEND_FRAMEWORKS.
                   every (inPkgJson sat pkg) (detectors fw) \<noteq> Inr True"
  shows "(\<forall>r. detect sat pkg = Inr r \<longrightarrow> r = \<lparr>framework = None, bundler = None\<rparr>) \<and>
         ((\<forall>fw \<in> set FRONTEND_FRAMEWORKS. returns (every (inPkgJson sat pkg) (detectors fw))) \<longrightarrow>
            detect sat pkg =
              (case every (inPkgJson sat pkg) (bundler_detectors vite_bundler) of
                 Inl e \<Rightarrow> Inl e
               | Inr hasVite \<Rightarrow>
                   (case every (inPkgJson sat pkg) (bundler_detectors webpack_bundler) of
                      Inl e \<Rightarrow> Inl e
                    | Inr hasWebpack \<Rightarrow> Inr \<lparr>framework = None, bundler = None\<rparr>))) \<and>
         ((\<forall>fw \<in> set FRONTEND_FRAMEWORKS. returns (every (inPkgJson sat pkg) (detectors fw))) \<and>
          (\<forall>b \<in> set bundlers. returns (every (inPkgJson sat pkg) (bundler_detectors b))) \<longrightarrow>
            detect sat pkg = Inr \<lparr>framework = None, bundler = None\<rparr>)"
proof -
  have only: "\<forall>r. detect sat pkg = Inr r \<longrightarrow> r = \<lparr>framework = None, bundler = None\<rparr>"
  proof (intro allI impI)
    fix r
    assume "detect sat pkg = Inr r"
    then have "detect_in sat FRONTEND_FRAMEWORKS bundlers pkg = Inr r" by (simp add: detect_def)
    from detect_in_result [OF this] none
    show "r = \<lparr>framework = None, bundler = None\<rparr>" by auto
  qed
  have exact: "detect sat pkg =
      (case every (inPkgJson sat pkg) (bundler_detectors vite_bundler) of
         Inl e \<Rightarrow> Inl e
       | Inr hasVite \<Rightarrow>
           (case every (inPkgJson sat pkg) (bundler_detectors webpack_bundler) of
              Inl e \<Rightarrow> Inl e
            | Inr hasWebpack \<Rightarrow> Inr \<lparr>framework = None, bundler = None\<rparr>))"
    if ok: "\<forall>fw \<in> set FRONTEND_FRAMEWORKS. returns (every (inPkgJson sat pkg) (detectors fw))"
  proof -
    have false: "every (inPkgJson sat pkg) (detectors fw) = Inr False"
      if "fw \<in> set FRONTEND_FRAMEWORKS" for fw
    proof (cases "every (inPkgJson sat pkg) (detectors fw)")
      case (Inl e)
      with ok that show ?thesis by (auto simp: returns_def)
    next
      case (Inr x)
      with none that show ?thesis by (cases x) auto
    qed
    have t: "template_pass sat pkg (filter (\<lambda>x. family x = template) FRONTEND_FRAMEWORKS) =
               Inr None"
      by (rule template_pass_none) (simp add: false)
    have "library_pass sat pkg bundlers [react, vue2, vue3] =
            (case bundler_pass sat pkg (hd [react, vue2, vue3]) False bundlers of
               Inl e \<Rightarrow> Inl e
             | Inr res \<Rightarrow> Inr None)"
      by (rule library_pass_all_False) (simp_all add: false FRONTEND_FRAMEWORKS_def)
    then have l: "library_pass sat pkg bundlers
                    (filter (\<lambda>x. family x = library) FRONTEND_FRAMEWORKS) =
            (case bundler_pass sat pkg react False bundlers of
               Inl e \<Rightarrow> Inl e
             | Inr res \<Rightarrow> Inr None)"
      by (simp add: libraries_static)
    show ?thesis
      unfolding detect_def detect_in_def t l bundler_pass_False_static
      by (simp split: sum.splits)
  qed
  have quiet: "detect sat pkg = Inr \<lparr>framework = None, bundler = None\<rparr>"
    if ok: "(\<forall>fw \<in> set FRONTEND_FRAMEWORKS. returns (every (inPkgJson sat pkg) (detectors fw))) \<and>
            (\<forall>b \<in> set bundlers. returns (every (inPkgJson sat pkg) (bundler_detectors b)))"
  proof -
    from ok have "returns (every (inPkgJson sat pkg) (bundler_detectors vite_bundler))"
      and "returns (every (inPkgJson sat pkg) (bundler_detectors webpack_bundler))"
      by (simp_all add: bundlers_def)
    then show ?thesis
      using exact ok by (auto simp: returns_def split: sum.splits)
  qed
  from only exact quiet show ?thesis by blast
qed

theorem detect_no_match_witness:
  "detect satisfies lodash_only = Inr \<lparr>framework = None, bundler = None\<rparr> \<and>
   detect satisfies vue1_vite = Inr \<lparr>framework = None, bundler = None\<rparr> \<and>
   detect satisfies vue1_webpack_latest = Inl (InvalidSemver ''latest'')"
proof -
  have n1: "\<forall>fw \<in> set FRONTEND_FRAMEWORKS.
              every (inPkgJson satisfies lodash_only) (detectors fw) \<noteq> Inr True"
    by code_simp
  have ok1: "(\<forall>fw \<in> set FRONTEND_FRAMEWORKS.
               returns (every (inPkgJson satisfies lodash_only) (detectors fw))) \<and>
            (\<forall>b \<in> set bundlers.
               returns (every (inPkgJson satisfies lodash_only) (bundler_detectors b)))"
    by code_simp
  have n2: "\<forall>fw \<in> set FRONTEND_FRAMEWORKS.
              every (inPkgJson satisfies vue1_vite) (detectors fw) \<noteq> Inr True"
    by code_simp
  have ok2: "(\<forall>fw \<in> set FRONTEND_FRAMEWORKS.
               returns (every (inPkgJson satisfies vue1_vite) (detectors fw))) \<and>
            (\<forall>b \<in> set bundlers.
               returns (every (inPkgJson satisfies vue1_vite) (bundler_detectors b)))"
    by code_simp
  have n3: "\<forall>fw \<in> set FRONTEND_FRAMEWORKS.
              every (inPkgJson satisfies vue1_webpack_latest) (detectors fw) \<noteq> Inr True"
    by code_simp
  have ok3: "\<forall>fw \<in> set FRONTEND_FRAMEWORKS.
               returns (every (inPkgJson satisfies vue1_webpack_latest) (detectors fw))"
    by code_simp
  have v3: "every (inPkgJson satisfies vue1_webpack_latest) (bundler_detectors vite_bundler) =
              Inr False"
    by code_simp
  have w3: "every (inPkgJson satisfies vue1_webpack_latest) (bundler_detectors webpack_bundler) =
              Inl (InvalidSemver ''latest'')"
    by code_simp
  from detect_no_match [OF n1] ok1
  have A: "detect satisfies lodash_only = Inr \<lparr>framework = None, bundler = None\<rparr>" by blast
  from detect_no_match [OF n2] ok2
  have B: "detect satisfies vue1_vite = Inr \<lparr>framework = None, bundler = None\<rparr>" by blast
  from detect_no_match [OF n3] ok3
  have "detect satisfies vue1_webpack_latest =
      (case every (inPkgJson satisfies vue1_webpack_latest) (bundler_detectors vite_bundler) of
         Inl e \<Rightarrow> Inl e
       | Inr hasVite \<Rightarrow>
           (case every (inPkgJson satisfies vue1_webpack_latest)
                   (bundler_detectors webpack_bundler) of
              Inl e \<Rightarrow> Inl e
            | Inr hasWebpack \<Rightarrow> Inr \<lparr>framework = None, bundler = None\<rparr>))"
    by blast
  then have C: "detect satisfies vue1_webpack_latest = Inl (InvalidSemver ''latest'')"
    unfolding v3 w3 by simp
  show ?thesis by (rule conjI [OF A conjI [OF B C]])
qed

theorem detect_no_match_counterexample:
  "list_all (\<lambda>fw. every (inPkgJson satisfies vite_latest) (detectors fw) = Inr False)
     FRONTEND_FRAMEWORKS \<and>
   detect satisfies vite_latest = Inl (InvalidSemver ''latest'') \<and>
   detect satisfies vite_latest \<noteq> Inr \<lparr>framework = None, bundler = None\<rparr>"
  by code_simp

text \<open>
  Claim C6 asks of the rule check that a package declared at \<^verbatim>\<open>^16.0.0\<close> satisfies a
  rule that requires \<^verbatim>\<open>>=16.0.0\<close> and that one declared at \<^verbatim>\<open>^15.9.0\<close> does
  not. The code does the first and not the second. \<^verbatim>\<open>inPkgJson\<close> hands the declared
  string, range operator and all, to the version check as the version to compare; for a
  comparison rule the version check compares the pieces between the dots as numbers, the
  first piece of the rule is no number because of its operator, and so the major numbers
  are never compared: \<^verbatim>\<open>^15.9.0\<close> satisfies \<^verbatim>\<open>>=16.0.0\<close>, in either partition,
  and a manifest with React at \<^verbatim>\<open>^15.9.0\<close> is detected as React. A caret rule does
  compare the major number of the same kind of declared string.
\<close>

theorem inPkgJson_ignores_major:
  "inPkgJson satisfies \<lparr>dependencies = Some [p \<mapsto> ''^16.0.0''], devDependencies = dev\<rparr>
     \<lparr>version = ''>=16.0.0'', dependency = p\<rparr> = Inr True \<and>
   inPkgJson satisfies \<lparr>dependencies = Some [p \<mapsto> ''^15.9.0''], devDependencies = dev\<rparr>
     \<lparr>version = ''>=16.0.0'', dependency = p\<rparr> = Inr True \<and>
   inPkgJson satisfies \<lparr>dependencies = None, devDependencies = Some [p \<mapsto> ''^15.9.0'']\<rparr>
     \<lparr>version = ''>=16.0.0'', dependency = p\<rparr> = Inr True \<and>
   detect satisfies react16 = Inr \<lparr>framework = Some react, bundler = None\<rparr> \<and>
   detect satisfies react15 = Inr \<lparr>framework = Some react, bundler = None\<rparr> \<and>
   satisfies ''^2.6.14'' ''>=3.0.0'' = Inr True \<and>
   satisfies ''^2.6.14'' ''^3.0.0'' = Inr False"
proof -
  have yes: "satisfies ''^16.0.0'' ''>=16.0.0'' = Inr True" by code_simp
  have also_yes: "satisfies ''^15.9.0'' ''>=16.0.0'' = Inr True" by code_simp
  have d16: "detect satisfies react16 = Inr \<lparr>framework = Some react, bundler = None\<rparr>"
    by code_simp
  have d15: "detect satisfies react15 = Inr \<lparr>framework = Some react, bundler = None\<rparr>"
    by code_simp
  have cmp: "satisfies ''^2.6.14'' ''>=3.0.0'' = Inr True" by code_simp
  have caret: "satisfies ''^2.6.14'' ''^3.0.0'' = Inr False" by code_simp
  show ?thesis
    by (simp add: inPkgJson_def declared_def lookup_def yes also_yes d16 d15 cmp caret)
qed

text \<open>
  Claim C7, as amended. When the manifest satisfies all rules of a template with one
  bundler and the template pass reaches that template, that is, every template before it
  in the registry is checked without an exception and is not selected, \<^verbatim>\<open>detect\<close>
  returns that template with the bundler absent, whatever else the manifest declares.
  A manifest that also satisfies the rules of an earlier template gets the earlier one.
\<close>

theorem detect_single_bundler_template:
  assumes tmpl: "filter (\<lambda>x. family x = template) FRONTEND_FRAMEWORKS = pre @ t # post"
    and reach: "template_pass sat pkg pre = Inr None"
    and sel: "every (inPkgJson sat pkg) (detectors t) = Inr True"
    and one: "length (supportedBundlers t) = 1"
  shows "detect sat pkg = Inr \<lparr>framework = Some t, bundler = None\<rparr>"
  unfolding detect_def by (rule detect_in_template_hit [OF tmpl reach sel one])

theorem detect_single_bundler_template_witness:
  "detect satisfies next_react = Inr \<lparr>framework = Some nextjs, bundler = None\<rparr>"
proof -
  have tmpl: "filter (\<lambda>x. family x = template) FRONTEND_FRAMEWORKS =
                [cra, vueclivue2, vueclivue3] @ nextjs # [nuxtjs]"
    by code_simp
  have reach: "template_pass satisfies next_react [cra, vueclivue2, vueclivue3] = Inr None"
    by code_simp
  have sel: "every (inPkgJson satisfies next_react) (detectors nextjs) = Inr True"
    by code_simp
  have one: "length (supportedBundlers nextjs) = 1" by code_simp
  show ?thesis by (rule detect_single_bundler_template [OF tmpl reach sel one])
qed

theorem detect_single_bundler_template_counterexample:
  "nextjs \<in> set FRONTEND_FRAMEWORKS \<and> family nextjs = template \<and>
   length (supportedBundlers nextjs) = 1 \<and>
   every (inPkgJson satisfies cra_next) (detectors nextjs) = Inr True \<and>
   detect satisfies cra_next = Inr \<lparr>framework = Some cra, bundler = None\<rparr> \<and>
   detect satisfies cra_next \<noteq> Inr \<lparr>framework = Some nextjs, bundler = None\<rparr>"
  by code_simp

text \<open>
  Claim C8, as amended. \<^verbatim>\<open>detect\<close> raises nothing of its own and catches nothing.
  A rule whose package is not declared, or is declared as the empty string only, is not
  satisfied, and the version check is not called; an empty string in the regular
  partition leaves the answer to the other partition. A rule whose package is declared
  has the outcome of the version check on the declared string, its exception included.
  An exception of a rule check that detection reaches is the outcome of \<^verbatim>\<open>detect\<close>:
  in \<^verbatim>\<open>every\<close> after the rules before it were satisfied, in the template pass at a
  template the loop has reached, in the library pass at a library the loop has reached,
  and in the bundler loop at a bundler that loop has reached. Every exception of
  \<^verbatim>\<open>detect\<close> is an exception of the version check on a declared version and a rule of
  the static tables, so \<^verbatim>\<open>detect\<close> returns a result whenever the check of every such
  rule returns.
\<close>

theorem detect_errors:
  "(\<forall>v. declared pkg (dependency d) = Some v \<and> v \<noteq> [] \<longrightarrow>
        inPkgJson sat pkg d = sat v (version d)) \<and>
   (declared pkg (dependency d) = None \<or> declared pkg (dependency d) = Some [] \<longrightarrow>
        inPkgJson sat pkg d = Inr False) \<and>
   (lookup (dependencies pkg) (dependency d) = Some [] \<longrightarrow>
        declared pkg (dependency d) = lookup (devDependencies pkg) (dependency d)) \<and>
   (\<forall>xs x ys e. list_all (\<lambda>y. inPkgJson sat pkg y = Inr True) xs \<and>
        inPkgJson sat pkg x = Inl e \<longrightarrow>
        every (inPkgJson sat pkg) (xs @ x # ys) = Inl e) \<and>
   (\<forall>pre t post e.
        filter (\<lambda>x. family x = template) FRONTEND_FRAMEWORKS = pre @ t # post \<and>
        template_pass sat pkg pre = Inr None \<and>
        every (inPkgJson sat pkg) (detectors t) = Inl e \<longrightarrow>
        detect sat pkg = Inl e) \<and>
   (\<forall>pre l post e.
        template_pass sat pkg (filter (\<lambda>x. family x = template) FRONTEND_FRAMEWORKS) = Inr None \<and>
        filter (\<lambda>x. family x = library) FRONTEND_FRAMEWORKS = pre @ l # post \<and>
        library_pass sat pkg bundlers pre = Inr None \<and>
        every (inPkgJson sat pkg) (detectors l) = Inl e \<longrightarrow>
        detect sat pkg = Inl e) \<and>
   (\<forall>pre l post h bpre b bpost e.
        template_pass sat pkg (filter (\<lambda>x. family x = template) FRONTEND_FRAMEWORKS) = Inr None \<and>
        filter (\<lambda>x. family x = library) FRONTEND_FRAMEWORKS = pre @ l # post \<and>
        library_pass sat pkg bundlers pre = Inr None \<and>
        every (inPkgJson sat pkg) (detectors l) = Inr h \<and>
        bundlers = bpre @ b # bpost \<and>
        bundler_pass sat pkg l h bpre = Inr None \<and>
        every (inPkgJson sat pkg) (bundler_detectors b) = Inl e \<longrightarrow>
        detect sat pkg = Inl e) \<and>
   (\<forall>e. detect sat pkg = Inl e \<longrightarrow>
        (\<exists>d' \<in> set registry_detectors. \<exists>v.
           declared pkg (dependency d') = Some v \<and> v \<noteq> [] \<and> sat v (version d') = Inl e)) \<and>
   ((\<forall>d' \<in> set registry_detectors. returns (inPkgJson sat pkg d')) \<longrightarrow>
      (\<exists>r. detect sat pkg = Inr r))"
proof -
  have pass: "\<forall>v. declared pkg (dependency d) = Some v \<and> v \<noteq> [] \<longrightarrow>
                inPkgJson sat pkg d = sat v (version d)"
    by (simp add: inPkgJson_def)
  have absent: "declared pkg (dependency d) = None \<or> declared pkg (dependency d) = Some [] \<longrightarrow>
                  inPkgJson sat pkg d = Inr False"
    by (auto simp: inPkgJson_def)
  have empty: "lookup (dependencies pkg) (dependency d) = Some [] \<longrightarrow>
                 declared pkg (dependency d) = lookup (devDependencies pkg) (dependency d)"
    by (simp add: declared_def)
  have ev: "\<forall>xs x ys e. list_all (\<lambda>y. inPkgJson sat pkg y = Inr True) xs \<and>
              inPkgJson sat pkg x = Inl e \<longrightarrow>
              every (inPkgJson sat pkg) (xs @ x # ys) = Inl e"
  proof (intro allI impI, elim conjE)
    fix xs x ys e
    assume "list_all (\<lambda>y. inPkgJson sat pkg y = Inr True) xs"
      and "inPkgJson sat pkg x = Inl e"
    then show "every (inPkgJson sat pkg) (xs @ x # ys) = Inl e"
      by (rule every_raises)
  qed
  have tp: "\<forall>pre t post e.
        filter (\<lambda>x. family x = template) FRONTEND_FRAMEWORKS = pre @ t # post \<and>
        template_pass sat pkg pre = Inr None \<and>
        every (inPkgJson sat pkg) (detectors t) = Inl e \<longrightarrow>
        detect sat pkg = Inl e"
  proof (intro allI impI, elim conjE)
    fix pre t post e
    assume "filter (\<lambda>x. family x = template) FRONTEND_FRAMEWORKS = pre @ t # post"
      and "template_pass sat pkg pre = Inr None"
      and "every (inPkgJson sat pkg) (detectors t) = Inl e"
    then show "detect sat pkg = Inl e"
      unfolding detect_def by (rule detect_template_raises)
  qed
  have lp: "\<forall>pre l post e.
        template_pass sat pkg (filter (\<lambda>x. family x = template) FRONTEND_FRAMEWORKS) = Inr None \<and>
        filter (\<lambda>x. family x = library) FRONTEND_FRAMEWORKS = pre @ l # post \<and>
        library_pass sat pkg bundlers pre = Inr None \<and>
        every (inPkgJson sat pkg) (detectors l) = Inl e \<longrightarrow>
        detect sat pkg = Inl e"
  proof (intro allI impI, elim conjE)
    fix pre l post e
    assume "template_pass sat pkg (filter (\<lambda>x. family x = template) FRONTEND_FRAMEWORKS) =
              Inr None"
      and "filter (\<lambda>x. family x = library) FRONTEND_FRAMEWORKS = pre @ l # post"
      and "library_pass sat pkg bundlers pre = Inr None"
      and "every (inPkgJson sat pkg) (detectors l) = Inl e"
    then show "detect sat pkg = Inl e"
      unfolding detect_def by (rule detect_library_raises)
  qed
  have bp: "\<forall>pre l post h bpre b bpost e.
        template_pass sat pkg (filter (\<lambda>x. family x = template) FRONTEND_FRAMEWORKS) = Inr None \<and>
        filter (\<lambda>x. family x = library) FRONTEND_FRAMEWORKS = pre @ l # post \<and>
        library_pass sat pkg bundlers pre = Inr None \<and>
        every (inPkgJson sat pkg) (detectors l) = Inr h \<and>
        bundlers = bpre @ b # bpost \<and>
        bundler_pass sat pkg l h bpre = Inr None \<and>
        every (inPkgJson sat pkg) (bundler_detectors b) = Inl e \<longrightarrow>
        detect sat pkg = Inl e"
  proof (intro allI impI, elim conjE)
    fix pre l post h bpre b bpost e
    assume "template_pass sat pkg (filter (\<lambda>x. family x = template) FRONTEND_FRAMEWORKS) =
              Inr None"
      and "filter (\<lambda>x. family x = library) FRONTEND_FRAMEWORKS = pre @ l # post"
      and "library_pass sat pkg bundlers pre = Inr None"
      and "every (inPkgJson sat pkg) (detectors l) = Inr h"
      and "bundlers = bpre @ b # bpost"
      and "bundler_pass sat pkg l h bpre = Inr None"
      and "every (inPkgJson sat pkg) (bundler_detectors b) = Inl e"
    then show "detect sat pkg = Inl e"
      unfolding detect_def by (rule detect_bundler_raises)
  qed
  have src: "\<exists>d' \<in> set registry_detectors. inPkgJson sat pkg d' = Inl e"
    if "detect sat pkg = Inl e" for e
  proof -
    from that have "detect_in sat FRONTEND_FRAMEWORKS bundlers pkg = Inl e"
      by (simp add: detect_def)
    from detect_in_Inl [OF this] show ?thesis
    proof
      assume "\<exists>fw \<in> set FRONTEND_FRAMEWORKS. every (inPkgJson sat pkg) (detectors fw) = Inl e"
      then obtain fw where fw: "fw \<in> set FRONTEND_FRAMEWORKS"
        and "every (inPkgJson sat pkg) (detectors fw) = Inl e" by blast
      from every_Inl [OF this(2)] obtain d' where "d' \<in> set (detectors fw)"
        and "inPkgJson sat pkg d' = Inl e" by blast
      with fw show ?thesis unfolding registry_detectors_def by auto
    next
      assume "\<exists>b \<in> set bundlers. every (inPkgJson sat pkg) (bundler_detectors b) = Inl e"
      then obtain b where b: "b \<in> set bundlers"
        and "every (inPkgJson sat pkg) (bundler_detectors b) = Inl e" by blast
      from every_Inl [OF this(2)] obtain d' where "d' \<in> set (bundler_detectors b)"
        and "inPkgJson sat pkg d' = Inl e" by blast
      with b show ?thesis unfolding registry_detectors_def by auto
    qed
  qed
  have origin: "\<forall>e. detect sat pkg = Inl e \<longrightarrow>
        (\<exists>d' \<in> set registry_detectors. \<exists>v.
           declared pkg (dependency d') = Some v \<and> v \<noteq> [] \<and> sat v (version d') = Inl e)"
  proof (intro allI impI)
    fix e
    assume "detect sat pkg = Inl e"
    from src [OF this] obtain d' where d': "d' \<in> set registry_detectors"
      and "inPkgJson sat pkg d' = Inl e" by blast
    from inPkgJson_Inl [OF this(2)] d'
    show "\<exists>d' \<in> set registry_detectors. \<exists>v.
            declared pkg (dependency d') = Some v \<and> v \<noteq> [] \<and> sat v (version d') = Inl e"
      by blast
  qed
  have total: "(\<forall>d' \<in> set registry_detectors. returns (inPkgJson sat pkg d')) \<longrightarrow>
                 (\<exists>r. detect sat pkg = Inr r)"
  proof
    assume ok: "\<forall>d' \<in> set registry_detectors. returns (inPkgJson sat pkg d')"
    show "\<exists>r. detect sat pkg = Inr r"
    proof (cases "detect sat pkg")
      case (Inl e)
      from src [OF this] ok show ?thesis by (auto simp: returns_def)
    next
      case (Inr r)
      then show ?thesis by blast
    qed
  qed
  show ?thesis
    by (intro conjI) (rule pass absent empty ev tp lp bp origin total)+
qed

theorem detect_errors_witness:
  "inPkgJson satisfies react_scripts_latest \<lparr>version = ''>=4.0.0'', dependency = ''react-scripts''\<rparr> =
     Inl (InvalidSemver ''latest'') \<and>
   inPkgJson satisfies react_scripts_latest \<lparr>version = ''>=2.0.0'', dependency = ''vite''\<rparr> =
     Inr False \<and>
   declared vue_empty ''vue'' = Some ''^3.2.0'' \<and>
   detect satisfies cli_service_latest = Inl (InvalidSemver ''latest'') \<and>
   detect satisfies vue3_vite_latest = Inl (InvalidSemver ''latest'') \<and>
   (\<exists>r. detect satisfies vue3_vite = Inr r)"
proof -
  let ?d = "\<lparr>version = ''>=4.0.0'', dependency = ''react-scripts''\<rparr>"
  let ?d' = "\<lparr>version = ''>=2.0.0'', dependency = ''vite''\<rparr>"
  let ?vue = "\<lparr>version = ''^3.0.0'', dependency = ''vue''\<rparr>"
  have decl: "declared react_scripts_latest (dependency ?d) = Some ''latest'' \<and> ''latest'' \<noteq> []"
    by code_simp
  have thrown: "satisfies ''latest'' (version ?d) = Inl (InvalidSemver ''latest'')"
    by code_simp
  have undecl: "declared react_scripts_latest (dependency ?d') = None"
    by code_simp
  have emp: "lookup (dependencies vue_empty) (dependency ?vue) = Some []"
    by code_simp
  have dev: "lookup (devDependencies vue_empty) (dependency ?vue) = Some ''^3.2.0''"
    by code_simp
  have tmpl: "filter (\<lambda>x. family x = template) FRONTEND_FRAMEWORKS =
                [cra] @ vueclivue2 # [vueclivue3, nextjs, nuxtjs]"
    by code_simp
  have reach: "template_pass satisfies cli_service_latest [cra] = Inr None"
    by code_simp
  have raised: "every (inPkgJson satisfies cli_service_latest) (detectors vueclivue2) =
                  Inl (InvalidSemver ''latest'')"
    by code_simp
  have through: "template_pass satisfies vue3_vite_latest
                   (filter (\<lambda>x. family x = template) FRONTEND_FRAMEWORKS) = Inr None"
    by code_simp
  have libs: "filter (\<lambda>x. family x = library) FRONTEND_FRAMEWORKS = [] @ react # [vue2, vue3]"
    by code_simp
  have lreach: "library_pass satisfies vue3_vite_latest bundlers [] = Inr None" by simp
  have lib: "every (inPkgJson satisfies vue3_vite_latest) (detectors react) = Inr False"
    by code_simp
  have bund: "bundlers = [] @ vite_bundler # [webpack_bundler]"
    by (simp add: bundlers_def)
  have breach: "bundler_pass satisfies vue3_vite_latest react False [] = Inr None" by simp
  have braised: "every (inPkgJson satisfies vue3_vite_latest) (bundler_detectors vite_bundler) =
                   Inl (InvalidSemver ''latest'')"
    by code_simp
  have ok: "\<forall>d' \<in> set registry_detectors. returns (inPkgJson satisfies vue3_vite d')"
    by code_simp
  note c1 = detect_errors [THEN conjunct1, rule_format]
  note c2 = detect_errors [THEN conjunct2, THEN conjunct1, rule_format]
  note c3 = detect_errors [THEN conjunct2, THEN conjunct2, THEN conjunct1, rule_format]
  note c5 = detect_errors [THEN conjunct2, THEN conjunct2, THEN conjunct2, THEN conjunct2,
              THEN conjunct1, rule_format]
  note c7 = detect_errors [THEN conjunct2, THEN conjunct2, THEN conjunct2, THEN conjunct2,
              THEN conjunct2, THEN conjunct2, THEN conjunct1, rule_format]
  note c9 = detect_errors [THEN conjunct2, THEN conjunct2, THEN conjunct2, THEN conjunct2,
              THEN conjunct2, THEN conjunct2, THEN conjunct2, THEN conjunct2, rule_format]
  have "inPkgJson satisfies react_scripts_latest ?d = satisfies ''latest'' (version ?d)"
    by (rule c1) (rule decl)
  then have A: "inPkgJson satisfies react_scripts_latest ?d = Inl (InvalidSemver ''latest'')"
    unfolding thrown .
  have B: "inPkgJson satisfies react_scripts_latest ?d' = Inr False"
    by (rule c2) (rule disjI1, rule undecl)
  have "declared vue_empty (dependency ?vue) = lookup (devDependencies vue_empty) (dependency ?vue)"
    by (rule c3) (rule emp)
  with dev have C: "declared vue_empty ''vue'' = Some ''^3.2.0''" by simp
  have D: "detect satisfies cli_service_latest = Inl (InvalidSemver ''latest'')"
    by (rule c5) (intro conjI, rule tmpl, rule reach, rule raised)
  have E: "detect satisfies vue3_vite_latest = Inl (InvalidSemver ''latest'')"
    by (rule c7)
       (intro conjI, rule through, rule libs, rule lreach, rule lib, rule bund, rule breach,
        rule braised)
  have F: "\<exists>r. detect satisfies vue3_vite = Inr r"
    by (rule c9) (use ok in blast)
  show ?thesis
    by (rule conjI [OF A conjI [OF B conjI [OF C conjI [OF D conjI [OF E F]]]]])
qed

theorem detect_errors_counterexample:
  "inPkgJson satisfies react_scripts_latest \<lparr>version = ''>=4.0.0'', dependency = ''react-scripts''\<rparr> =
     Inl (InvalidSemver ''latest'') \<and>
   detect satisfies react_scripts_latest = Inl (InvalidSemver ''latest'')"
  by code_simp

text \<open>
  Claim C9. With the bundler table in its order, vite and then webpack, \<^verbatim>\<open>detect\<close>
  returns the bundler webpack for no manifest: at a library whose rules are all satisfied
  the bundler loop is left in its first iteration, with vite or with no bundler (or with
  the exception of the check of vite's rule), so the entry of webpack is not examined.
\<close>

theorem detect_never_webpack:
  "detect sat pkg \<noteq> Inr \<lparr>framework = f, bundler = Some webpack\<rparr> \<and>
   bundler_pass sat pkg lib True bundlers =
     (case every (inPkgJson sat pkg) (bundler_detectors vite_bundler) of
        Inl e \<Rightarrow> Inl e
      | Inr hasBundler \<Rightarrow>
          Inr (Some \<lparr>framework = Some lib,
                     bundler = (if hasBundler then Some vite else None)\<rparr>)) \<and>
   bundler_pass sat pkg lib True bundlers = bundler_pass sat pkg lib True [vite_bundler]"
proof -
  have never: "detect sat pkg \<noteq> Inr \<lparr>framework = f, bundler = Some webpack\<rparr>"
  proof
    assume "detect sat pkg = Inr \<lparr>framework = f, bundler = Some webpack\<rparr>"
    then have "detect_in sat FRONTEND_FRAMEWORKS bundlers pkg =
                 Inr \<lparr>framework = f, bundler = Some webpack\<rparr>"
      by (simp add: detect_def)
    from detect_in_result [OF this] show False
      by (auto simp: bundlers_def vite_bundler_def)
  qed
  have first: "bundler_pass sat pkg lib True bundlers =
     (case every (inPkgJson sat pkg) (bundler_detectors vite_bundler) of
        Inl e \<Rightarrow> Inl e
      | Inr hasBundler \<Rightarrow>
          Inr (Some \<lparr>framework = Some lib,
                     bundler = (if hasBundler then Some vite else None)\<rparr>))"
  proof -
    have ty: "bundler_type vite_bundler = vite" by (simp add: vite_bundler_def)
    show ?thesis unfolding bundlers_def bundler_pass_True ty by (rule refl)
  qed
  have only: "bundler_pass sat pkg lib True bundlers = bundler_pass sat pkg lib True [vite_bundler]"
    unfolding bundlers_def bundler_pass_True by (rule refl)
  from never first only show ?thesis by blast
qed

text \<open>
  Claim C10. A result of \<^verbatim>\<open>detect\<close> never has a bundler without a framework: when
  the bundler of the result is present, so is its framework.
\<close>

theorem detect_bundler_has_framework:
  assumes "detect sat pkg = Inr r" and "bundler r \<noteq> None"
  shows "framework r \<noteq> None"
proof -
  from assms(1) have "detect_in sat FRONTEND_FRAMEWORKS bundlers pkg = Inr r"
    by (simp add: detect_def)
  from detect_in_result [OF this] assms(2) show ?thesis by auto
qed

theorem detect_bundler_has_framework_witness:
  "detect satisfies react_vite = Inr \<lparr>framework = Some react, bundler = Some vite\<rparr> \<and>
   bundler \<lparr>framework = Some react, bundler = Some vite\<rparr> \<noteq> None \<and>
   framework \<lparr>framework = Some react, bundler = Some vite\<rparr> \<noteq> None"
proof -
  have ret: "detect satisfies react_vite = Inr \<lparr>framework = Some react, bundler = Some vite\<rparr>"
    by code_simp
  have b: "bundler \<lparr>framework = Some react, bundler = Some vite\<rparr> \<noteq> None" by simp
  have f: "framework \<lparr>framework = Some react, bundler = Some vite\<rparr> \<noteq> None"
    by (rule detect_bundler_has_framework [OF ret b])
  show ?thesis by (rule conjI [OF ret conjI [OF b f]])
qed

end
